theory Spec2Isabelle
  imports Main "HOL-Library.Log_Nat"
begin

section \<open>Exceptions\<close>

text \<open>
  Every Python exception that the modelled code can raise is a value of \<open>error\<close>; a
  computation that may raise returns \<open>error + 'a\<close>, with \<open>Inl\<close> for the exception.
  \<open>ExternalError\<close> stands for whatever an external service (the translation client, the speech
  model) raises.
\<close>

datatype error =
    ValueError
  | OverflowError
  | ZeroDivisionError
  | IndexError
  | FileNotFoundError
  | OSError
  | ExternalError string

definition bindE :: "error + 'a \<Rightarrow> ('a \<Rightarrow> error + 'b) \<Rightarrow> error + 'b" where
  "bindE r f = (case r of Inl e \<Rightarrow> Inl e | Inr v \<Rightarrow> f v)"

section \<open>Python floats (IEEE 754 binary64)\<close>

text \<open>
  A float is a finite value (the rational it denotes), an infinity or a NaN. The sign of a zero
  is not tracked: the code only observes floats through \<open>int()\<close>, where \<open>-0.0\<close> and \<open>0.0\<close>
  agree. Every arithmetic operation computes the exact rational result and rounds it with
  \<open>fl_rnd\<close>: round to nearest, ties to even, 53 bits of significand, exponents from \<open>-1074\<close>
  (subnormals) up to \<open>971\<close>; a result of magnitude \<open>2^1024 - 2^970\<close> or more overflows to an
  infinity.
\<close>

datatype fl = Fin rat | PInf | NInf | NaN

definition pow2 :: "int \<Rightarrow> rat" where
  "pow2 e = (if 0 \<le> e then of_int (2 ^ nat e) else 1 / of_int (2 ^ nat (- e)))"

definition floor_log2 :: "rat \<Rightarrow> int" where
  "floor_log2 a = (if 1 \<le> a then bitlen \<lfloor>a\<rfloor> - 1 else - bitlen (\<lceil>1 / a\<rceil> - 1))"

definition round_even :: "rat \<Rightarrow> int" where
  "round_even x =
     (let f = \<lfloor>x\<rfloor>; d = x - of_int f
      in if d < 1 / 2 then f else if 1 / 2 < d then f + 1 else if even f then f else f + 1)"

definition overflow_threshold :: rat where
  "overflow_threshold = of_int (2 ^ 1024 - 2 ^ 970)"

definition fl_rnd :: "rat \<Rightarrow> fl" where
  "fl_rnd q =
     (if q = 0 then Fin 0
      else if overflow_threshold \<le> \<bar>q\<bar> then (if 0 < q then PInf else NInf)
      else let e = max (floor_log2 \<bar>q\<bar> - 52) (- 1074);
               m = round_even (\<bar>q\<bar> / pow2 e)
           in Fin (sgn q * of_int m * pow2 e))"

definition trunc :: "rat \<Rightarrow> int" where
  "trunc a = (if 0 \<le> a then \<lfloor>a\<rfloor> else \<lceil>a\<rceil>)"

definition fl_neg :: "fl \<Rightarrow> fl" where
  "fl_neg x = (case x of Fin a \<Rightarrow> Fin (- a) | PInf \<Rightarrow> NInf | NInf \<Rightarrow> PInf | NaN \<Rightarrow> NaN)"

fun fl_add :: "fl \<Rightarrow> fl \<Rightarrow> fl" where
  "fl_add (Fin a) (Fin b) = fl_rnd (a + b)"
| "fl_add NaN y = NaN"
| "fl_add x NaN = NaN"
| "fl_add PInf NInf = NaN"
| "fl_add NInf PInf = NaN"
| "fl_add PInf y = PInf"
| "fl_add NInf y = NInf"
| "fl_add (Fin a) y = y"

definition fl_sub :: "fl \<Rightarrow> fl \<Rightarrow> fl" where
  "fl_sub x y = fl_add x (fl_neg y)"

text \<open>
  In every product, quotient and remainder of the program the right operand is an \<open>int\<close>
  literal, converted to a finite float; these operations take it as a rational.
\<close>

definition fl_mul :: "fl \<Rightarrow> rat \<Rightarrow> fl" where
  "fl_mul x w =
     (case x of
        Fin a \<Rightarrow> fl_rnd (a * w)
      | PInf \<Rightarrow> (if w = 0 then NaN else if 0 < w then PInf else NInf)
      | NInf \<Rightarrow> (if w = 0 then NaN else if 0 < w then NInf else PInf)
      | NaN \<Rightarrow> NaN)"

definition fl_div :: "fl \<Rightarrow> rat \<Rightarrow> fl" where
  "fl_div x w =
     (case x of
        Fin a \<Rightarrow> fl_rnd (a / w)
      | PInf \<Rightarrow> (if 0 \<le> w then PInf else NInf)
      | NInf \<Rightarrow> (if 0 \<le> w then NInf else PInf)
      | NaN \<Rightarrow> NaN)"

text \<open>C's \<open>fmod\<close>: exact, with the sign of the dividend; NaN for an infinite or NaN dividend.\<close>

definition c_fmod :: "fl \<Rightarrow> rat \<Rightarrow> fl" where
  "c_fmod x w = (case x of Fin a \<Rightarrow> Fin (a - w * of_int (trunc (a / w))) | _ \<Rightarrow> NaN)"

definition c_floor :: "fl \<Rightarrow> fl" where
  "c_floor x = (case x of Fin a \<Rightarrow> Fin (of_int \<lfloor>a\<rfloor>) | _ \<Rightarrow> x)"

text \<open>C truth value of a double (\<open>if (x)\<close>): everything but zero, NaN included.\<close>

definition fl_nonzero :: "fl \<Rightarrow> bool" where
  "fl_nonzero x = (x \<noteq> Fin 0)"

definition fl_less :: "fl \<Rightarrow> rat \<Rightarrow> bool" where
  "fl_less x c = (case x of Fin a \<Rightarrow> a < c | NInf \<Rightarrow> True | _ \<Rightarrow> False)"

definition fl_greater :: "fl \<Rightarrow> rat \<Rightarrow> bool" where
  "fl_greater x c = (case x of Fin a \<Rightarrow> c < a | PInf \<Rightarrow> True | _ \<Rightarrow> False)"

text \<open>
  CPython's float \<open>//\<close> and \<open>%\<close> (\<open>_float_div_mod\<close> and \<open>float_rem\<close> of
  \<open>Objects/floatobject.c\<close>): \<open>fmod\<close>, the quotient \<open>(vx - mod) / wx\<close>, the adjustment that
  gives the remainder the sign of the divisor, and the snap of the quotient to an integral value.
\<close>

definition float_div_mod :: "fl \<Rightarrow> rat \<Rightarrow> fl \<times> fl" where
  "float_div_mod vx wx =
     (let mod0 = c_fmod vx wx;
          div0 = fl_div (fl_sub vx mod0) wx;
          adjust = (fl_nonzero mod0 \<and> ((wx < 0) \<noteq> fl_less mod0 0));
          mod1 = (if fl_nonzero mod0 then (if adjust then fl_add mod0 (Fin wx) else mod0) else Fin 0);
          div1 = (if adjust then fl_sub div0 (Fin 1) else div0);
          floordiv =
            (if fl_nonzero div1
             then (let fd = c_floor div1
                   in if fl_greater (fl_sub div1 fd) (1 / 2) then fl_add fd (Fin 1) else fd)
             else Fin 0)
      in (floordiv, mod1))"

definition float_floor_div :: "fl \<Rightarrow> rat \<Rightarrow> error + fl" where
  "float_floor_div vx wx =
     (if wx = 0 then Inl ZeroDivisionError else Inr (fst (float_div_mod vx wx)))"

definition float_rem :: "fl \<Rightarrow> rat \<Rightarrow> error + fl" where
  "float_rem vx wx =
     (if wx = 0 then Inl ZeroDivisionError
      else let mod0 = c_fmod vx wx
           in Inr (if fl_nonzero mod0
                   then (if (wx < 0) \<noteq> fl_less mod0 0 then fl_add mod0 (Fin wx) else mod0)
                   else Fin 0))"

section \<open>Python numbers and the operators of \<open>format_timestamp\<close>\<close>

text \<open>
  \<open>format_timestamp\<close> is duck-typed: it accepts an \<open>int\<close> (unbounded) or a \<open>float\<close>. A float
  literal denotes the double nearest to its decimal value.
\<close>

datatype pynum = PyInt int | PyFloat fl

definition float_literal :: "rat \<Rightarrow> pynum" where
  "float_literal q = PyFloat (fl_rnd q)"

definition int_to_float :: "int \<Rightarrow> error + rat" where
  "int_to_float n = (case fl_rnd (of_int n) of Fin r \<Rightarrow> Inr r | _ \<Rightarrow> Inl OverflowError)"

definition py_floordiv :: "pynum \<Rightarrow> int \<Rightarrow> error + pynum" where
  "py_floordiv v w =
     (case v of
        PyInt a \<Rightarrow> (if w = 0 then Inl ZeroDivisionError else Inr (PyInt (a div w)))
      | PyFloat vx \<Rightarrow>
          bindE (int_to_float w) (\<lambda>wx. bindE (float_floor_div vx wx) (\<lambda>r. Inr (PyFloat r))))"

definition py_mod :: "pynum \<Rightarrow> int \<Rightarrow> error + pynum" where
  "py_mod v w =
     (case v of
        PyInt a \<Rightarrow> (if w = 0 then Inl ZeroDivisionError else Inr (PyInt (a mod w)))
      | PyFloat vx \<Rightarrow>
          bindE (int_to_float w) (\<lambda>wx. bindE (float_rem vx wx) (\<lambda>r. Inr (PyFloat r))))"

definition py_mul :: "pynum \<Rightarrow> int \<Rightarrow> error + pynum" where
  "py_mul v w =
     (case v of
        PyInt a \<Rightarrow> Inr (PyInt (a * w))
      | PyFloat vx \<Rightarrow> bindE (int_to_float w) (\<lambda>wx. Inr (PyFloat (fl_mul vx wx))))"

text \<open>\<open>int(x)\<close> truncates towards zero; it raises on a NaN and on an infinity.\<close>

definition py_int :: "pynum \<Rightarrow> error + int" where
  "py_int v =
     (case v of
        PyInt a \<Rightarrow> Inr a
      | PyFloat (Fin a) \<Rightarrow> Inr (trunc a)
      | PyFloat NaN \<Rightarrow> Inl ValueError
      | PyFloat _ \<Rightarrow> Inl OverflowError)"

text \<open>
  The format specifications \<open>02\<close> and \<open>03\<close> of an \<open>int\<close>: decimal digits, padded with zeros
  after the sign up to the given minimal width; a longer number is not cut. CPython limits the
  conversion of an \<open>int\<close> to a decimal string: a number of more than
  \<open>sys.get_int_max_str_digits()\<close> digits (4300 by default, the sign not counted) raises
  \<open>ValueError\<close>.
\<close>

definition digit_char :: "nat \<Rightarrow> char" where
  "digit_char d = ''0123456789'' ! d"

function dec :: "nat \<Rightarrow> string" where
  "dec n = (if n < 10 then [digit_char n] else dec (n div 10) @ [digit_char (n mod 10)])"
  by pat_completeness auto
termination
  by (relation "measure id") auto

declare dec.simps [simp del]

definition zfill :: "nat \<Rightarrow> string \<Rightarrow> string" where
  "zfill w s = replicate (w - length s) CHR ''0'' @ s"

definition int_max_str_digits :: nat where
  "int_max_str_digits = 4300"

definition zero_padded :: "nat \<Rightarrow> int \<Rightarrow> string" where
  "zero_padded w n =
     (if n < 0 then CHR ''-'' # zfill (w - 1) (dec (nat (- n))) else zfill w (dec (nat n)))"

definition py_format_d :: "nat \<Rightarrow> int \<Rightarrow> error + string" where
  "py_format_d w n =
     (if int_max_str_digits < length (dec (nat \<bar>n\<bar>)) then Inl ValueError
      else Inr (zero_padded w n))"

section \<open>\<open>format_timestamp\<close>\<close>

text \<open>
  The four local variables of \<open>format_timestamp\<close>, in the order the code computes them, and
  the f-string, which formats its fields from left to right.
\<close>

definition ts_hrs :: "pynum \<Rightarrow> error + int" where
  "ts_hrs seconds = bindE (py_floordiv seconds 3600) py_int"

definition ts_mins :: "pynum \<Rightarrow> error + int" where
  "ts_mins seconds = bindE (bindE (py_mod seconds 3600) (\<lambda>r. py_floordiv r 60)) py_int"

definition ts_secs :: "pynum \<Rightarrow> error + int" where
  "ts_secs seconds = bindE (py_mod seconds 60) py_int"

definition ts_ms :: "pynum \<Rightarrow> error + int" where
  "ts_ms seconds = bindE (bindE (py_mul seconds 1000) (\<lambda>p. py_mod p 1000)) py_int"

definition format_timestamp :: "pynum \<Rightarrow> error + string" where
  "format_timestamp seconds =
     bindE (ts_hrs seconds) (\<lambda>hrs.
     bindE (ts_mins seconds) (\<lambda>mins.
     bindE (ts_secs seconds) (\<lambda>secs.
     bindE (ts_ms seconds) (\<lambda>ms.
     bindE (py_format_d 2 hrs) (\<lambda>hh.
     bindE (py_format_d 2 mins) (\<lambda>mm.
     bindE (py_format_d 2 secs) (\<lambda>ss.
     bindE (py_format_d 3 ms) (\<lambda>mmm.
     Inr (hh @ '':'' @ mm @ '':'' @ ss @ ''.'' @ mmm)))))))))"

section \<open>Segments and translation\<close>

text \<open>
  A segment of the speech model (the attributes \<open>start\<close>, \<open>end\<close> and \<open>text\<close> that the code
  reads), and the dictionary with keys \<open>"start"\<close>, \<open>"end"\<close>, \<open>"text"\<close> that
  \<open>translate_segments\<close> builds for each of them.
\<close>

record segment =
  seg_start :: pynum
  seg_end :: pynum
  seg_text :: string

record translated_segment =
  d_start :: pynum
  d_end :: pynum
  d_text :: string

text \<open>
  The translation client is a remote service: a call \<open>translator.translate(text, dest=lang).text\<close>
  returns the translated text or raises, and changes the state \<open>'w\<close> of the outside world.
\<close>

type_synonym 'w translator = "string \<Rightarrow> string \<Rightarrow> 'w \<Rightarrow> (error + string) \<times> 'w"

fun translate_loop ::
  "'w translator \<Rightarrow> string \<Rightarrow> segment list \<Rightarrow> translated_segment list \<Rightarrow> 'w
     \<Rightarrow> (error + translated_segment list) \<times> 'w" where
  "translate_loop tr target_lang [] translated_segments w = (Inr translated_segments, w)"
| "translate_loop tr target_lang (seg # segs) translated_segments w =
     (case tr (seg_text seg) target_lang w of
        (Inl e, w') \<Rightarrow> (Inl e, w')
      | (Inr txt, w') \<Rightarrow>
          translate_loop tr target_lang segs
            (translated_segments @ [\<lparr>d_start = seg_start seg, d_end = seg_end seg, d_text = txt\<rparr>])
            w')"

definition translate_segments ::
  "'w translator \<Rightarrow> segment list \<Rightarrow> string \<Rightarrow> 'w \<Rightarrow> (error + translated_segment list) \<times> 'w" where
  "translate_segments tr segments target_lang w = translate_loop tr target_lang segments [] w"

section \<open>The file system and \<open>create_vtt\<close>\<close>

text \<open>
  Files are a map from paths to contents. \<open>open(path, "w")\<close> creates or truncates the file, and
  raises \<open>OSError\<close> for a path that cannot be opened for writing. The contents are the text
  written (no newline translation, as on POSIX; the encoding to bytes is not modelled).
\<close>

record filesystem =
  files :: "string \<rightharpoonup> string"
  unwritable :: "string list"

definition open_w :: "string \<Rightarrow> filesystem \<Rightarrow> error + filesystem" where
  "open_w path fs =
     (if path \<in> set (unwritable fs) then Inl OSError
      else Inr (fs\<lparr>files := (files fs)(path \<mapsto> [])\<rparr>))"

text \<open>The loop of \<open>create_vtt\<close>; \<open>buf\<close> is what has been written to the open file so far.\<close>

fun write_cues :: "translated_segment list \<Rightarrow> string \<Rightarrow> (error + unit) \<times> string" where
  "write_cues [] buf = (Inr (), buf)"
| "write_cues (seg # segs) buf =
     (case format_timestamp (d_start seg) of
        Inl e \<Rightarrow> (Inl e, buf)
      | Inr start_time \<Rightarrow>
          (case format_timestamp (d_end seg) of
             Inl e \<Rightarrow> (Inl e, buf)
           | Inr end_time \<Rightarrow>
               write_cues segs
                 (buf @ start_time @ '' --> '' @ end_time @ ''\<newline>'' @ d_text seg
                    @ ''\<newline>\<newline>'')))"

text \<open>
  The \<open>with\<close> block closes the file on every exit, so what was written before an exception
  stays in the file.
\<close>

definition create_vtt ::
  "translated_segment list \<Rightarrow> string \<Rightarrow> filesystem \<Rightarrow> (error + unit) \<times> filesystem" where
  "create_vtt segments file_path fs =
     (case open_w file_path fs of
        Inl e \<Rightarrow> (Inl e, fs)
      | Inr fs0 \<Rightarrow>
          (case write_cues segments ''WEBVTT\<newline>\<newline>'' of
             (r, buf) \<Rightarrow> (r, fs0\<lparr>files := (files fs0)(file_path \<mapsto> buf)\<rparr>)))"

section \<open>External programs and \<open>extract_audio\<close>\<close>

text \<open>
  A program takes its arguments and the file system and returns its exit status and the file
  system it leaves. \<open>subprocess.run(cmd, ...)\<close> without \<open>check=True\<close> returns whatever the
  exit status is; it raises \<open>FileNotFoundError\<close> when the executable \<open>cmd[0]\<close> is not found.
\<close>

type_synonym program = "string list \<Rightarrow> filesystem \<Rightarrow> int \<times> filesystem"

definition subprocess_run ::
  "(string \<rightharpoonup> program) \<Rightarrow> string list \<Rightarrow> filesystem \<Rightarrow> (error + int) \<times> filesystem" where
  "subprocess_run programs cmd fs =
     (case cmd of
        [] \<Rightarrow> (Inl IndexError, fs)
      | exe # args \<Rightarrow>
          (case programs exe of
             None \<Rightarrow> (Inl FileNotFoundError, fs)
           | Some run \<Rightarrow> (case run args fs of (returncode, fs') \<Rightarrow> (Inr returncode, fs'))))"

definition extract_audio ::
  "(string \<rightharpoonup> program) \<Rightarrow> string \<Rightarrow> string \<Rightarrow> filesystem \<Rightarrow> (error + unit) \<times> filesystem" where
  "extract_audio programs video_path audio_path fs =
     (let cmd = [''ffmpeg'', ''-y'', ''-i'', video_path, ''-vn'', ''-acodec'', ''mp3'', audio_path]
      in case subprocess_run programs cmd fs of
           (Inl e, fs') \<Rightarrow> (Inl e, fs')
         | (Inr returncode, fs') \<Rightarrow> (Inr (), fs'))"

section \<open>The job\<close>

text \<open>
  The speech model reads the audio file and returns the segments or raises.
\<close>

type_synonym speech_model = "filesystem \<Rightarrow> string \<Rightarrow> string \<Rightarrow> error + segment list"

definition transcribe_audio ::
  "speech_model \<Rightarrow> string \<Rightarrow> string \<Rightarrow> filesystem \<Rightarrow> error + segment list" where
  "transcribe_audio whisper_model audio_path source_lang fs = whisper_model fs audio_path source_lang"

text \<open>
  \<open>tempfile.NamedTemporaryFile(delete=False, suffix=...)\<close> creates an empty file at a fresh
  path, which the system chooses; the three paths of a job are given.
\<close>

record 'w services =
  programs :: "string \<rightharpoonup> program"
  whisper_model :: speech_model
  translator :: "'w translator"

record temp_paths =
  video_path :: string
  temp_audio :: string
  temp_subs :: string

text \<open>
  The stages of the script from the upload to the subtitle file (the body of the
  \<open>if uploaded_video and st.button(...)\<close> block up to the call of \<open>create_vtt\<close>). An exception of
  a stage is not caught: it ends the job there.
\<close>

definition run_job ::
  "'w services \<Rightarrow> temp_paths \<Rightarrow> string \<Rightarrow> string \<Rightarrow> string \<Rightarrow> filesystem \<Rightarrow> 'w
     \<Rightarrow> (error + unit) \<times> filesystem \<times> 'w" where
  "run_job sv tp uploaded_video source_lang target_lang fs w =
     (case open_w (video_path tp) fs of
        Inl e \<Rightarrow> (Inl e, fs, w)
      | Inr fs0 \<Rightarrow>
     let fs1 = fs0\<lparr>files := (files fs0)(video_path tp \<mapsto> uploaded_video)\<rparr> in
     (case open_w (temp_audio tp) fs1 of
        Inl e \<Rightarrow> (Inl e, fs1, w)
      | Inr fs2 \<Rightarrow>
     (case open_w (temp_subs tp) fs2 of
        Inl e \<Rightarrow> (Inl e, fs2, w)
      | Inr fs3 \<Rightarrow>
     (case extract_audio (programs sv) (video_path tp) (temp_audio tp) fs3 of
        (Inl e, fs4) \<Rightarrow> (Inl e, fs4, w)
      | (Inr u, fs4) \<Rightarrow>
     (case transcribe_audio (whisper_model sv) (temp_audio tp) source_lang fs4 of
        Inl e \<Rightarrow> (Inl e, fs4, w)
      | Inr segments \<Rightarrow>
     (case translate_segments (translator sv) segments target_lang w of
        (Inl e, w') \<Rightarrow> (Inl e, fs4, w')
      | (Inr translated_segments, w') \<Rightarrow>
     (case create_vtt translated_segments (temp_subs tp) fs4 of
        (r, fs5) \<Rightarrow> (r, fs5, w'))))))))"

section \<open>The format the specification prescribes\<close>

text \<open>
  The fields of a timestamp as the specification words them: \<open>MM\<close> and \<open>SS\<close> are exactly two
  decimal digits, \<open>mmm\<close> exactly three, \<open>HH\<close> two digits or as many as the number needs.
\<close>

definition two_digits :: "int \<Rightarrow> string" where
  "two_digits n = [digit_char (nat n div 10), digit_char (nat n mod 10)]"

definition three_digits :: "int \<Rightarrow> string" where
  "three_digits n =
     [digit_char (nat n div 100), digit_char (nat n div 10 mod 10), digit_char (nat n mod 10)]"

definition hours_field :: "int \<Rightarrow> string" where
  "hours_field h = (if h < 100 then two_digits h else dec (nat h))"

text \<open>
  The seconds values on which \<open>format_timestamp\<close> returns: a non-negative \<open>int\<close> whose hours
  \<open>s // 3600\<close> have at most 4300 digits (\<open>s // 3600 < 10 ** 4300\<close>), or a non-negative finite \<open>float\<close> whose product with
  \<open>1000\<close> does not overflow.
\<close>

definition in_range :: "pynum \<Rightarrow> bool" where
  "in_range s =
     (case s of
        PyInt n \<Rightarrow> 0 \<le> n \<and> n div 3600 < 10 ^ int_max_str_digits
      | PyFloat (Fin q) \<Rightarrow> 0 \<le> q \<and> q * 1000 < overflow_threshold
      | PyFloat _ \<Rightarrow> False)"

text \<open>One cue block: \<open><start> --> <end>\n<text>\n\n\<close>.\<close>

definition cue_block :: "translated_segment \<Rightarrow> error + string" where
  "cue_block seg =
     bindE (format_timestamp (d_start seg)) (\<lambda>start_time.
     bindE (format_timestamp (d_end seg)) (\<lambda>end_time.
     Inr (start_time @ '' --> '' @ end_time @ ''\<newline>'' @ d_text seg @ ''\<newline>\<newline>'')))"






section \<open>Example inputs\<close>

text \<open>
  A translation service that knows two words and counts the calls made to it, the two segments
  of the end-to-end scenario (\<open>1.2\<close> is the literal \<open>6/5\<close>), cues whose text holds a newline
  or an empty line, a cue at the time \<open>2.0 ** 1021\<close>, an empty file system, and a host whose
  transcoder exits with status 1 without writing anything.
\<close>

definition phrasebook :: "nat translator" where
  "phrasebook s dest calls =
     (if dest = ''fr'' \<and> s = ''Hello'' then (Inr ''Bonjour'', Suc calls)
      else if dest = ''fr'' \<and> s = ''World'' then (Inr ''Monde'', Suc calls)
      else (Inl (ExternalError ''no translation''), Suc calls))"

definition hello_world :: "segment list" where
  "hello_world =
     [\<lparr>seg_start = float_literal 0, seg_end = float_literal (6 / 5), seg_text = ''Hello''\<rparr>,
      \<lparr>seg_start = float_literal (6 / 5), seg_end = float_literal 3, seg_text = ''World''\<rparr>]"

definition bonjour_monde :: "translated_segment list" where
  "bonjour_monde =
     [\<lparr>d_start = float_literal 0, d_end = float_literal (6 / 5), d_text = ''Bonjour''\<rparr>,
      \<lparr>d_start = float_literal (6 / 5), d_end = float_literal 3, d_text = ''Monde''\<rparr>]"





definition empty_fs :: filesystem where
  "empty_fs = \<lparr>files = Map.empty, unwritable = []\<rparr>"

definition ffmpeg_no_audio :: program where
  "ffmpeg_no_audio args fs = (1, fs)"

definition host_without_ffmpeg :: "string \<rightharpoonup> program" where
  "host_without_ffmpeg = Map.empty"

definition host_with_ffmpeg :: "string \<rightharpoonup> program" where
  "host_with_ffmpeg = [''ffmpeg'' \<mapsto> ffmpeg_no_audio]"

definition demo_whisper :: speech_model where
  "demo_whisper fs audio_path source_lang =
     Inr [\<lparr>seg_start = PyInt 0, seg_end = PyInt 1, seg_text = ''Hello''\<rparr>,
          \<lparr>seg_start = PyInt 1, seg_end = PyInt 2, seg_text = ''Zzz''\<rparr>,
          \<lparr>seg_start = PyInt 2, seg_end = PyInt 3, seg_text = ''World''\<rparr>]"

definition demo_services :: "nat services" where
  "demo_services =
     \<lparr>programs = host_with_ffmpeg, whisper_model = demo_whisper, translator = phrasebook\<rparr>"

definition demo_paths :: temp_paths where
  "demo_paths = \<lparr>video_path = ''v.mp4'', temp_audio = ''a.mp3'', temp_subs = ''s.vtt''\<rparr>"

section \<open>Rounding to a double\<close>

lemma pow2_powi: "pow2 e = 2 powi e"
  by (simp add: pow2_def power_int_def field_simps)

lemma pow2_pos: "0 < pow2 e"
  by (simp add: pow2_powi)

lemma pow2_mono: "a \<le> b \<Longrightarrow> pow2 a \<le> pow2 b"
  by (simp add: pow2_powi power_int_increasing)

lemma floor_log2_le:
  assumes "0 < a"
  shows "pow2 (floor_log2 a) \<le> a"
proof (cases "1 \<le> a")
  case True
  then have n: "0 < \<lfloor>a\<rfloor>" by simp
  from bitlen_bounds [OF n] have b: "2 ^ nat (bitlen \<lfloor>a\<rfloor> - 1) \<le> \<lfloor>a\<rfloor>" by simp
  have "1 \<le> bitlen \<lfloor>a\<rfloor>" using n by (simp add: bitlen_alt_def)
  then have "pow2 (floor_log2 a) = of_int (2 ^ nat (bitlen \<lfloor>a\<rfloor> - 1))"
    using True by (simp add: floor_log2_def pow2_def)
  also have "\<dots> \<le> of_int \<lfloor>a\<rfloor>" using b by (simp only: of_int_le_iff)
  also have "\<dots> \<le> a" by simp
  finally show ?thesis .
next
  case False
  define c where "c = \<lceil>1 / a\<rceil> - 1"
  have "1 < 1 / a" using False assms by simp
  then have "1 < \<lceil>1 / a\<rceil>" by (simp add: less_ceiling_iff)
  then have c: "0 < c" by (simp add: c_def)
  from bitlen_bounds [OF c] have b: "c < 2 ^ nat (bitlen c)" by simp
  have b1: "1 \<le> bitlen c" using c by (simp add: bitlen_alt_def)
  have "1 / a \<le> of_int (c + 1)" by (simp add: c_def)
  also have "\<dots> \<le> of_int (2 ^ nat (bitlen c))"
  proof -
    from b have "c + 1 \<le> 2 ^ nat (bitlen c)" by linarith
    then show ?thesis by (rule iffD2 [OF of_int_le_iff])
  qed
  finally have "1 / a \<le> of_int (2 ^ nat (bitlen c))" .
  then have "1 / of_int (2 ^ nat (bitlen c)) \<le> a"
    using assms by (simp add: field_simps)
  moreover have "pow2 (floor_log2 a) = 1 / of_int (2 ^ nat (bitlen c))"
    using False b1 by (simp add: floor_log2_def pow2_def c_def)
  ultimately show ?thesis by simp
qed

lemma round_even_of_int: "round_even (of_int n) = n"
  by (simp add: round_even_def)

lemma round_even_bounds:
  assumes "0 \<le> x"
  shows "0 \<le> round_even x" and "of_int (round_even x) \<le> x + 1 / 2"
proof -
  have f: "0 \<le> \<lfloor>x\<rfloor>" using assms by simp
  show "0 \<le> round_even x" using f by (simp add: round_even_def Let_def)
  have le: "of_int \<lfloor>x\<rfloor> \<le> x" by simp
  have lt: "x < of_int \<lfloor>x\<rfloor> + 1" by linarith
  define f where "f = \<lfloor>x\<rfloor>"
  have re: "round_even x = f \<or> (round_even x = f + 1 \<and> 1 / 2 \<le> x - of_int f)"
    unfolding round_even_def Let_def f_def by (cases "x - of_int \<lfloor>x\<rfloor> < 1 / 2") auto
  from le have le': "of_int f \<le> x" by (simp add: f_def)
  from re show "of_int (round_even x) \<le> x + 1 / 2"
  proof
    assume "round_even x = f"
    then show ?thesis using le' by simp
  next
    assume "round_even x = f + 1 \<and> 1 / 2 \<le> x - of_int f"
    then show ?thesis by simp
  qed
qed



lemma overflow_threshold_big: "of_int (2 ^ 53) < overflow_threshold"
  unfolding overflow_threshold_def by (simp only: of_int_less_iff) simp

lemma fl_rnd_bound:
  assumes "0 \<le> q" and "q < overflow_threshold"
  shows "\<exists>r. fl_rnd q = Fin r \<and> 0 \<le> r \<and> r \<le> 2 * q + 1"
proof (cases "q = 0")
  case True
  then show ?thesis by (simp add: fl_rnd_def)
next
  case False
  with assms have pos: "0 < q" by simp
  define e where "e = max (floor_log2 q - 52) (- 1074)"
  define m where "m = round_even (q / pow2 e)"
  have rnd: "fl_rnd q = Fin (of_int m * pow2 e)"
    using pos assms(2) by (simp add: fl_rnd_def Let_def e_def m_def)
  have x0: "0 \<le> q / pow2 e" using pos pow2_pos [of e] by simp
  from round_even_bounds [OF x0]
  have m0: "0 \<le> m" and m1: "of_int m \<le> q / pow2 e + 1 / 2" by (simp_all add: m_def)
  have r0: "0 \<le> of_int m * pow2 e" using m0 pow2_pos [of e] by simp
  have "of_int m * pow2 e \<le> (q / pow2 e + 1 / 2) * pow2 e"
    using m1 pow2_pos [of e] by (simp add: mult_right_mono)
  also have "\<dots> = q + pow2 e / 2" using pow2_pos [of e] by (simp add: field_simps)
  finally have r1: "of_int m * pow2 e \<le> q + pow2 e / 2" .
  have "pow2 e \<le> max q 1"
  proof (cases "floor_log2 q - 52 \<le> - 1074")
    case True
    then have "e = - 1074" by (simp add: e_def)
    then have "pow2 e \<le> pow2 0" by (simp add: pow2_mono)
    then show ?thesis by (simp add: pow2_def)
  next
    case False
    then have "e = floor_log2 q - 52" by (simp add: e_def)
    then have "pow2 e \<le> pow2 (floor_log2 q)" by (simp add: pow2_mono)
    also have "\<dots> \<le> q" by (rule floor_log2_le [OF pos])
    finally show ?thesis by simp
  qed
  then have "pow2 e / 2 \<le> q + 1" using pos by (simp add: max_def split: if_splits)
  with r1 have "of_int m * pow2 e \<le> 2 * q + 1" by simp
  with rnd r0 show ?thesis by simp
qed

lemma bitlen_le_53:
  assumes "0 < k" and "k < 2 ^ 53"
  shows "1 \<le> bitlen k" and "bitlen k \<le> 53"
proof -
  show "1 \<le> bitlen k" using assms(1) by (simp add: bitlen_alt_def)
  from bitlen_bounds [OF assms(1)] have "(2::int) ^ nat (bitlen k - 1) \<le> k" by simp
  with assms(2) have "(2::int) ^ nat (bitlen k - 1) < 2 ^ 53" by simp
  then have "nat (bitlen k - 1) < 53" by (simp only: power_strict_increasing_iff one_less_numeral_iff semiring_norm)
  then show "bitlen k \<le> 53" by simp
qed

lemma fl_rnd_of_int:
  assumes "0 \<le> k" and "k < 2 ^ 53"
  shows "fl_rnd (of_int k) = Fin (of_int k)"
proof (cases "k = 0")
  case True
  then show ?thesis by (simp add: fl_rnd_def)
next
  case False
  with assms have pos: "0 < k" by simp
  from bitlen_le_53 [OF pos assms(2)] have b1: "1 \<le> bitlen k" and b53: "bitlen k \<le> 53" .
  define j where "j = nat (53 - bitlen k)"
  have fl: "floor_log2 (of_int k) = bitlen k - 1" using pos by (simp add: floor_log2_def)
  have e: "max (floor_log2 (of_int k) - 52) (- 1074) = - int j"
    using b1 b53 by (simp add: fl j_def)
  have p: "pow2 (- int j) = 1 / of_int (2 ^ j)"
    by (cases "j = 0") (simp_all add: pow2_def)
  have q: "\<bar>rat_of_int k\<bar> / pow2 (- int j) = of_int (k * 2 ^ j)"
    using pos by (simp add: p)
  have lt: "rat_of_int k < overflow_threshold"
  proof -
    have "rat_of_int k < of_int (2 ^ 53)" using assms(2) by (simp only: of_int_less_iff)
    with overflow_threshold_big show ?thesis by simp
  qed
  have "fl_rnd (of_int k) = Fin (of_int (round_even (\<bar>rat_of_int k\<bar> / pow2 (- int j))) * pow2 (- int j))"
    using pos lt by (simp add: fl_rnd_def Let_def e)
  also have "\<dots> = Fin (of_int (k * 2 ^ j) * pow2 (- int j))"
    by (simp only: q round_even_of_int)
  also have "\<dots> = Fin (of_int k)" by (simp add: p)
  finally show ?thesis .
qed



lemma trunc_nonneg: "0 \<le> a \<Longrightarrow> trunc a = \<lfloor>a\<rfloor>"
  by (simp add: trunc_def)

lemma frem_bounds:
  fixes q w :: rat
  assumes "0 < w"
  shows "0 \<le> q - w * of_int \<lfloor>q / w\<rfloor>" and "q - w * of_int \<lfloor>q / w\<rfloor> < w"
proof -
  have "of_int \<lfloor>q / w\<rfloor> \<le> q / w" by simp
  then have "of_int \<lfloor>q / w\<rfloor> * w \<le> q" using assms by (simp only: pos_le_divide_eq)
  then show "0 \<le> q - w * of_int \<lfloor>q / w\<rfloor>" by (simp add: mult.commute)
  have "q / w < of_int \<lfloor>q / w\<rfloor> + 1" by linarith
  then have "q < (of_int \<lfloor>q / w\<rfloor> + 1) * w" using assms by (simp only: pos_divide_less_eq)
  then show "q - w * of_int \<lfloor>q / w\<rfloor> < w" by (simp add: algebra_simps)
qed

lemma c_fmod_nonneg:
  assumes "0 \<le> q" and "0 < w"
  shows "c_fmod (Fin q) w = Fin (q - w * of_int \<lfloor>q / w\<rfloor>)"
  using assms by (simp add: c_fmod_def trunc_nonneg)

lemma float_rem_nonneg:
  assumes "0 \<le> q" and "0 < w"
  shows "float_rem (Fin q) w = Inr (Fin (q - w * of_int \<lfloor>q / w\<rfloor>))"
proof -
  from frem_bounds(1) [OF assms(2), of q] have "\<not> q - w * of_int \<lfloor>q / w\<rfloor> < 0" by simp
  then show ?thesis
    using assms by (simp add: float_rem_def c_fmod_nonneg Let_def fl_nonzero_def fl_less_def)
qed

lemma float_floor_div_exact:
  assumes "0 \<le> q" and "0 < wi" and "wi * \<lfloor>q / of_int wi\<rfloor> < 2 ^ 53"
  shows "float_floor_div (Fin q) (of_int wi) = Inr (Fin (of_int \<lfloor>q / of_int wi\<rfloor>))"
proof -
  define w :: rat where "w = of_int wi"
  define k where "k = \<lfloor>q / w\<rfloor>"
  have w: "0 < w" using assms(2) by (simp add: w_def)
  have k0: "0 \<le> k" using assms(1) w by (simp add: k_def)
  have wk: "wi * k < 2 ^ 53" using assms(3) by (simp add: k_def w_def)
  have "k \<le> wi * k" using k0 assms(2) by (simp add: mult_le_cancel_right1)
  with wk have k53: "k < 2 ^ 53" by simp
  have m: "c_fmod (Fin q) w = Fin (q - w * of_int k)"
    using assms(1) w by (simp add: c_fmod_nonneg k_def)
  have nn: "\<not> q - w * of_int k < 0" using frem_bounds(1) [OF w, of q] by (simp add: k_def)
  have sub: "fl_sub (Fin q) (Fin (q - w * of_int k)) = Fin (of_int (wi * k))"
  proof -
    have "fl_sub (Fin q) (Fin (q - w * of_int k)) = fl_rnd (of_int (wi * k))"
      by (simp add: fl_sub_def fl_neg_def w_def)
    also have "\<dots> = Fin (of_int (wi * k))"
      using k0 assms(2) wk by (intro fl_rnd_of_int) simp_all
    finally show ?thesis .
  qed
  have dv: "fl_div (Fin (of_int (wi * k))) w = Fin (of_int k)"
  proof -
    have "rat_of_int (wi * k) / w = of_int k" using w by (simp add: w_def)
    then have "fl_div (Fin (of_int (wi * k))) w = fl_rnd (of_int k)" by (simp add: fl_div_def)
    also have "\<dots> = Fin (of_int k)" using k0 k53 by (rule fl_rnd_of_int)
    finally show ?thesis .
  qed
  have z: "fl_sub (Fin (of_int k)) (Fin (of_int k)) = Fin 0"
    by (simp add: fl_sub_def fl_neg_def fl_rnd_def)
  have fd: "c_floor (Fin (rat_of_int k)) = Fin (of_int k)" by (simp add: c_floor_def)
  have "fst (float_div_mod (Fin q) w) = Fin (of_int k)"
    unfolding float_div_mod_def Let_def m sub dv fd z
    using w nn by (simp add: fd z fl_nonzero_def fl_less_def fl_greater_def)
  then show ?thesis using w by (simp add: float_floor_div_def w_def k_def)
qed

lemma float_floor_div_nonneg:
  assumes "0 \<le> q" and "1 \<le> w" and "4 * q + 4 < overflow_threshold"
  shows "\<exists>h. float_floor_div (Fin q) w = Inr (Fin h) \<and> 0 \<le> h
           \<and> h \<le> 2 * overflow_threshold + 1"
proof -
  define T where "T = overflow_threshold"
  have w: "0 < w" using assms(2) by simp
  define k where "k = \<lfloor>q / w\<rfloor>"
  have m: "c_fmod (Fin q) w = Fin (q - w * of_int k)"
    using assms(1) w by (simp add: c_fmod_nonneg k_def)
  have nn: "\<not> q - w * of_int k < 0" using frem_bounds(1) [OF w, of q] by (simp add: k_def)
  have k0: "0 \<le> k" using assms(1) w by (simp add: k_def)
  have wk0: "0 \<le> w * of_int k" using k0 w by simp
  have wkq: "w * of_int k \<le> q" using frem_bounds(1) [OF w, of q] by (simp add: k_def)
  have "w * of_int k < overflow_threshold" using wkq assms(1,3) by linarith
  from fl_rnd_bound [OF wk0 this] obtain r1 where
    r1: "fl_rnd (w * of_int k) = Fin r1" "0 \<le> r1" "r1 \<le> 2 * (w * of_int k) + 1" by blast
  have sub: "fl_sub (Fin q) (Fin (q - w * of_int k)) = Fin r1"
    using r1(1) by (simp add: fl_sub_def fl_neg_def)
  have d0: "0 \<le> r1 / w" using r1(2) w by simp
  have d1: "r1 / w \<le> r1" using r1(2) assms(2) by (simp add: divide_le_eq mult_le_cancel_left1) 
  have "r1 / w < overflow_threshold" using d1 r1(3) wkq assms(1,3) by linarith
  from fl_rnd_bound [OF d0 this] obtain r2 where
    r2: "fl_rnd (r1 / w) = Fin r2" "0 \<le> r2" "r2 \<le> 2 * (r1 / w) + 1" by blast
  have dv: "fl_div (Fin r1) w = Fin r2" using r2(1) by (simp add: fl_div_def)
  have f0: "0 \<le> r2 - of_int \<lfloor>r2\<rfloor>" by simp
  have "r2 - of_int \<lfloor>r2\<rfloor> < 1" by linarith
  moreover have "1 < overflow_threshold" using overflow_threshold_big by simp
  ultimately have "r2 - of_int \<lfloor>r2\<rfloor> < overflow_threshold" by simp
  from fl_rnd_bound [OF f0 this] obtain r3 where
    r3: "fl_rnd (r2 - of_int \<lfloor>r2\<rfloor>) = Fin r3" by blast
  have fr: "fl_sub (Fin r2) (Fin (of_int \<lfloor>r2\<rfloor>)) = Fin r3"
    using r3 by (simp add: fl_sub_def fl_neg_def)
  have g0: "0 \<le> rat_of_int \<lfloor>r2\<rfloor> + 1" using r2(2) by simp
  have "rat_of_int \<lfloor>r2\<rfloor> \<le> r2" by simp
  then have "rat_of_int \<lfloor>r2\<rfloor> + 1 < overflow_threshold"
    using r2(3) d1 r1(3) wkq assms(1,3) by linarith
  have g1: "rat_of_int \<lfloor>r2\<rfloor> + 1 < overflow_threshold" by fact
  from fl_rnd_bound [OF g0 g1] obtain r4 where
    r4: "fl_rnd (rat_of_int \<lfloor>r2\<rfloor> + 1) = Fin r4" "0 \<le> r4"
      and r4u: "r4 \<le> 2 * (rat_of_int \<lfloor>r2\<rfloor> + 1) + 1" by blast
  have u4: "r4 \<le> 2 * overflow_threshold + 1" using r4u g1 by simp
  have u2: "rat_of_int \<lfloor>r2\<rfloor> \<le> 2 * overflow_threshold + 1" using g1 g0 by simp
  have up: "fl_add (Fin (of_int \<lfloor>r2\<rfloor>)) (Fin 1) = Fin r4" using r4(1) by simp
  have fl0: "0 \<le> rat_of_int \<lfloor>r2\<rfloor>" using r2(2) by simp
  have fd: "c_floor (Fin r2) = Fin (of_int \<lfloor>r2\<rfloor>)" by (simp add: c_floor_def)
  have z: "(0::rat) \<le> 2 * overflow_threshold + 1" using g0 g1 by simp
  have "\<exists>h. fst (float_div_mod (Fin q) w) = Fin h \<and> 0 \<le> h \<and> h \<le> 2 * overflow_threshold + 1"
    unfolding float_div_mod_def Let_def m sub dv fd fr up
    using w nn r4 fl0 u4 u2 z by (simp add: fd fr fl_nonzero_def fl_less_def fl_greater_def)
  then show ?thesis using w by (simp add: float_floor_div_def)
qed

section \<open>The decimal fields\<close>

lemma dec_small: "n < 10 \<Longrightarrow> dec n = [digit_char n]"
  by (simp add: dec.simps)

lemma dec_two:
  assumes "10 \<le> n" and "n < 100"
  shows "dec n = [digit_char (n div 10), digit_char (n mod 10)]"
proof -
  have "n div 10 < 10" using assms(2) by simp
  then have "dec (n div 10) = [digit_char (n div 10)]" by (rule dec_small)
  moreover have "dec n = dec (n div 10) @ [digit_char (n mod 10)]"
    using assms(1) by (subst dec.simps) simp
  ultimately show ?thesis by simp
qed

lemma dec_three:
  assumes "100 \<le> n" and "n < 1000"
  shows "dec n = [digit_char (n div 100), digit_char (n div 10 mod 10), digit_char (n mod 10)]"
proof -
  have a: "10 \<le> n div 10" and b: "n div 10 < 100" using assms by simp_all
  have "dec n = dec (n div 10) @ [digit_char (n mod 10)]"
    using assms(1) by (subst dec.simps) simp
  also have "dec (n div 10) = [digit_char (n div 10 div 10), digit_char (n div 10 mod 10)]"
    by (rule dec_two [OF a b])
  finally have "dec n = [digit_char (n div 10 div 10), digit_char (n div 10 mod 10), digit_char (n mod 10)]"
    by simp
  moreover have "n div 10 div 10 = n div 100" by arith
  ultimately show ?thesis by simp
qed

lemma length_dec_pos: "1 \<le> length (dec n)"
  by (subst dec.simps) simp

lemma length_dec_ge2: "10 \<le> n \<Longrightarrow> 2 \<le> length (dec n)"
  using length_dec_pos [of "n div 10"] by (subst dec.simps) simp

lemma length_dec_ge3: "100 \<le> n \<Longrightarrow> 3 \<le> length (dec n)"
  using length_dec_ge2 [of "n div 10"] by (subst dec.simps) simp

lemma digit_char_zero: "digit_char 0 = CHR ''0''"
  by (simp add: digit_char_def)

lemma zero_padded_hours:
  assumes "0 \<le> n"
  shows "zero_padded 2 n = hours_field n"
proof -
  consider "nat n < 10" | "10 \<le> nat n" "nat n < 100" | "100 \<le> nat n" by linarith
  then show ?thesis
  proof cases
    case 1
    then have "n < 100" by simp
    with 1 assms show ?thesis
      by (simp add: zero_padded_def hours_field_def two_digits_def zfill_def dec_small
          digit_char_zero)
  next
    case 2
    then have "n < 100" by simp
    with 2 assms show ?thesis
      by (simp add: zero_padded_def hours_field_def two_digits_def zfill_def dec_two)
  next
    case 3
    then have "\<not> n < 100" by simp
    moreover have "2 \<le> length (dec (nat n))" using 3 by (intro length_dec_ge2) simp
    ultimately show ?thesis using assms
      by (simp add: zero_padded_def hours_field_def zfill_def)
  qed
qed

lemma zero_padded_two:
  assumes "0 \<le> n" and "n < 100"
  shows "zero_padded 2 n = two_digits n"
  using zero_padded_hours [OF assms(1)] assms(2) by (simp add: hours_field_def)

lemma zero_padded_three:
  assumes "0 \<le> n" and "n < 1000"
  shows "zero_padded 3 n = three_digits n"
proof -
  consider "nat n < 10" | "10 \<le> nat n" "nat n < 100" | "100 \<le> nat n" by linarith
  then show ?thesis
  proof cases
    case 1
    with assms show ?thesis
      by (simp add: zero_padded_def three_digits_def zfill_def dec_small digit_char_zero
          numeral_3_eq_3)
  next
    case 2
    with assms show ?thesis
      by (simp add: zero_padded_def three_digits_def zfill_def dec_two digit_char_zero)
  next
    case 3
    moreover have "nat n < 1000" using assms by simp
    ultimately show ?thesis using assms
      by (simp add: zero_padded_def three_digits_def zfill_def dec_three)
  qed
qed




lemma length_dec_le:
  assumes "n < 10 ^ k" and "0 < k"
  shows "length (dec n) \<le> k"
  using assms
proof (induction k arbitrary: n)
  case 0
  then show ?case by simp
next
  case (Suc j)
  show ?case
  proof (cases "n < 10")
    case True
    then show ?thesis by (simp add: dec_small)
  next
    case False
    have d: "n div 10 < 10 ^ j" using Suc.prems(1) by (simp add: less_mult_imp_div_less mult.commute)
    have "0 < j"
    proof (rule ccontr)
      assume "\<not> 0 < j"
      then have "j = 0" by simp
      with Suc.prems(1) False show False by simp
    qed
    from Suc.IH [OF d this] have "length (dec (n div 10)) \<le> j" .
    moreover have "dec n = dec (n div 10) @ [digit_char (n mod 10)]"
      using False by (subst dec.simps) simp
    ultimately show ?thesis by simp
  qed
qed

lemma length_dec_gt:
  assumes "10 ^ k \<le> n"
  shows "k < length (dec n)"
  using assms
proof (induction k arbitrary: n)
  case 0
  show ?case using length_dec_pos [of n] by linarith
next
  case (Suc j)
  have "(10::nat) \<le> 10 ^ Suc j" by simp
  with Suc.prems have ten: "\<not> n < 10" by linarith
  have "10 ^ j \<le> n div 10" using Suc.prems by (simp add: less_eq_div_iff_mult_less_eq mult.commute)
  from Suc.IH [OF this] have "j < length (dec (n div 10))" .
  moreover have "dec n = dec (n div 10) @ [digit_char (n mod 10)]"
    using ten by (subst dec.simps) simp
  ultimately show ?case by simp
qed

lemma py_format_d_over_limit:
  assumes "10 ^ int_max_str_digits \<le> n"
  shows "py_format_d w n = Inl ValueError"
proof -
  have "(0::int) \<le> 10 ^ int_max_str_digits" by simp
  with assms have n0: "0 \<le> n" by linarith
  have "int (10 ^ int_max_str_digits) \<le> int (nat \<bar>n\<bar>)" using assms n0 by simp
  then have "10 ^ int_max_str_digits \<le> nat \<bar>n\<bar>" by (simp only: of_nat_le_iff)
  then have "int_max_str_digits < length (dec (nat \<bar>n\<bar>))" by (rule length_dec_gt)
  then show ?thesis by (simp add: py_format_d_def)
qed

lemma py_format_d_in_limit:
  assumes "0 \<le> n" and "n < 10 ^ int_max_str_digits"
  shows "py_format_d w n = Inr (zero_padded w n)"
proof -
  have "int (nat \<bar>n\<bar>) < int (10 ^ int_max_str_digits)" using assms by simp
  then have "nat \<bar>n\<bar> < 10 ^ int_max_str_digits" by (simp only: of_nat_less_iff)
  moreover have "0 < int_max_str_digits" by (simp add: int_max_str_digits_def)
  ultimately have "length (dec (nat \<bar>n\<bar>)) \<le> int_max_str_digits" by (rule length_dec_le)
  then show ?thesis by (simp add: py_format_d_def)
qed

lemma small_in_limit: "n < 1000 \<Longrightarrow> n < (10::int) ^ int_max_str_digits"
proof -
  assume "n < 1000"
  moreover have "(1000::int) = 10 ^ 3" by simp
  moreover have "(10::int) ^ 3 \<le> 10 ^ int_max_str_digits"
    by (rule power_increasing) (simp_all add: int_max_str_digits_def)
  ultimately show ?thesis by linarith
qed



section \<open>The components of a timestamp\<close>

lemma int_to_float_small:
  assumes "0 \<le> k" and "k < 2 ^ 53"
  shows "int_to_float k = Inr (of_int k)"
  by (simp add: int_to_float_def fl_rnd_of_int [OF assms])

lemma ts_int:
  shows "ts_hrs (PyInt n) = Inr (n div 3600)"
    and "ts_mins (PyInt n) = Inr (n mod 3600 div 60)"
    and "ts_secs (PyInt n) = Inr (n mod 60)"
    and "ts_ms (PyInt n) = Inr 0"
  by (simp_all add: ts_hrs_def ts_mins_def ts_secs_def ts_ms_def py_floordiv_def py_mod_def
      py_mul_def py_int_def bindE_def)

lemma overflow_threshold_gt: "8 < overflow_threshold"
  using overflow_threshold_big by simp

lemma hours_digits:
  assumes "rat_of_int h \<le> 2 * overflow_threshold + 1"
  shows "h < 10 ^ int_max_str_digits"
proof -
  have "rat_of_int h \<le> of_int (2 * (2 ^ 1024 - 2 ^ 970) + 1)"
    using assms by (simp add: overflow_threshold_def)
  then have "h \<le> 2 * (2 ^ 1024 - 2 ^ 970) + 1" by (simp only: of_int_le_iff)
  also have "\<dots> < (2::int) ^ 1025" by simp
  also have "\<dots> \<le> (10::int) ^ 1025" by (rule power_mono) simp_all
  also have "\<dots> \<le> (10::int) ^ int_max_str_digits"
    by (rule power_increasing) (simp_all add: int_max_str_digits_def)
  finally show ?thesis .
qed

lemma ts_hrs_float:
  assumes "0 \<le> q" and "4 * q + 4 < overflow_threshold"
  shows "\<exists>h. ts_hrs (PyFloat (Fin q)) = Inr h \<and> 0 \<le> h \<and> h < 10 ^ int_max_str_digits"
proof -
  from float_floor_div_nonneg [OF assms(1) _ assms(2), of 3600]
  obtain h where h: "float_floor_div (Fin q) 3600 = Inr (Fin h)" "0 \<le> h"
    "h \<le> 2 * overflow_threshold + 1" by auto
  have "int_to_float 3600 = Inr 3600" using int_to_float_small [of 3600] by simp
  then have "ts_hrs (PyFloat (Fin q)) = Inr (trunc h)"
    by (simp add: ts_hrs_def py_floordiv_def bindE_def h(1) py_int_def)
  moreover have "0 \<le> trunc h" using h(2) by (simp add: trunc_nonneg)
  moreover have "trunc h < 10 ^ int_max_str_digits"
  proof (rule hours_digits)
    have "rat_of_int (trunc h) \<le> h" using h(2) by (simp add: trunc_nonneg)
    with h(3) show "rat_of_int (trunc h) \<le> 2 * overflow_threshold + 1" by linarith
  qed
  ultimately show ?thesis by simp
qed

lemma product_in_range:
  assumes "0 \<le> q" and "q * 1000 < overflow_threshold"
  shows "4 * q + 4 < overflow_threshold"
proof (cases "q < 1")
  case True
  then show ?thesis using overflow_threshold_gt by linarith
next
  case False
  then show ?thesis using assms(2) by linarith
qed

lemma ts_mins_float:
  assumes "0 \<le> q"
  shows "ts_mins (PyFloat (Fin q)) = Inr \<lfloor>(q - 3600 * of_int \<lfloor>q / 3600\<rfloor>) / 60\<rfloor>"
proof -
  define r where "r = q - 3600 * of_int \<lfloor>q / 3600\<rfloor>"
  have r0: "0 \<le> r" and r1: "r < 3600"
    using frem_bounds [of 3600 q] by (simp_all add: r_def)
  have i1: "int_to_float 3600 = Inr 3600" using int_to_float_small [of 3600] by simp
  have i2: "int_to_float 60 = Inr 60" using int_to_float_small [of 60] by simp
  have m: "float_rem (Fin q) 3600 = Inr (Fin r)"
    using float_rem_nonneg [OF assms, of 3600] by (simp add: r_def)
  have "r / 60 < 60" using r1 by simp
  then have "\<lfloor>r / 60\<rfloor> < 60" by (simp only: floor_less_iff)
  then have "60 * \<lfloor>r / 60\<rfloor> < 3600" by linarith
  moreover have "(3600::int) < 2 ^ 53" by simp
  ultimately have "60 * \<lfloor>r / 60\<rfloor> < 2 ^ 53" by (rule less_trans)
  then have small: "60 * \<lfloor>r / rat_of_int 60\<rfloor> < 2 ^ 53" by simp
  have d: "float_floor_div (Fin r) 60 = Inr (Fin (of_int \<lfloor>r / 60\<rfloor>))"
    using float_floor_div_exact [OF r0 _ small] by simp
  have "ts_mins (PyFloat (Fin q)) = Inr (trunc (of_int \<lfloor>r / 60\<rfloor>))"
    by (simp add: ts_mins_def py_mod_def py_floordiv_def bindE_def i1 i2 m d py_int_def)
  then show ?thesis by (simp add: trunc_def r_def)
qed

lemma ts_secs_float:
  assumes "0 \<le> q"
  shows "ts_secs (PyFloat (Fin q)) = Inr \<lfloor>q - 60 * of_int \<lfloor>q / 60\<rfloor>\<rfloor>"
proof -
  have i: "int_to_float 60 = Inr 60" using int_to_float_small [of 60] by simp
  have m: "float_rem (Fin q) 60 = Inr (Fin (q - 60 * of_int \<lfloor>q / 60\<rfloor>))"
    using float_rem_nonneg [OF assms, of 60] by simp
  have "0 \<le> q - 60 * of_int \<lfloor>q / 60\<rfloor>" using frem_bounds(1) [of 60 q] by simp
  then show ?thesis
    by (simp add: ts_secs_def py_mod_def bindE_def i m py_int_def trunc_nonneg)
qed

lemma ts_ms_float:
  assumes "0 \<le> q" and "q * 1000 < overflow_threshold"
  shows "\<exists>p. fl_rnd (q * 1000) = Fin p \<and> 0 \<le> p
           \<and> ts_ms (PyFloat (Fin q)) = Inr \<lfloor>p - 1000 * of_int \<lfloor>p / 1000\<rfloor>\<rfloor>"
proof -
  have "0 \<le> q * 1000" using assms(1) by simp
  from fl_rnd_bound [OF this assms(2)] obtain p where
    p: "fl_rnd (q * 1000) = Fin p" "0 \<le> p" by blast
  have i: "int_to_float 1000 = Inr 1000" using int_to_float_small [of 1000] by simp
  have m: "float_rem (Fin p) 1000 = Inr (Fin (p - 1000 * of_int \<lfloor>p / 1000\<rfloor>))"
    using float_rem_nonneg [OF p(2), of 1000] by simp
  have "0 \<le> p - 1000 * of_int \<lfloor>p / 1000\<rfloor>" using frem_bounds(1) [of 1000 p] by simp
  then have "ts_ms (PyFloat (Fin q)) = Inr \<lfloor>p - 1000 * of_int \<lfloor>p / 1000\<rfloor>\<rfloor>"
    by (simp add: ts_ms_def py_mul_def py_mod_def bindE_def i fl_mul_def p(1) m py_int_def
        trunc_nonneg)
  with p show ?thesis by blast
qed

lemma floor_frem_range:
  fixes x :: rat
  assumes "0 < w"
  shows "0 \<le> \<lfloor>x - of_int w * of_int \<lfloor>x / of_int w\<rfloor>\<rfloor>"
    and "\<lfloor>x - of_int w * of_int \<lfloor>x / of_int w\<rfloor>\<rfloor> < w"
proof -
  have w: "0 < rat_of_int w" using assms by simp
  from frem_bounds [OF w, of x]
  have a: "0 \<le> x - of_int w * of_int \<lfloor>x / of_int w\<rfloor>"
    and b: "x - of_int w * of_int \<lfloor>x / of_int w\<rfloor> < of_int w" by simp_all
  show "0 \<le> \<lfloor>x - of_int w * of_int \<lfloor>x / of_int w\<rfloor>\<rfloor>" using a by simp
  show "\<lfloor>x - of_int w * of_int \<lfloor>x / of_int w\<rfloor>\<rfloor> < w" using b by (simp add: floor_less_iff)
qed

lemma ts_components:
  assumes "in_range s"
  shows "\<exists>h m c ms. ts_hrs s = Inr h \<and> ts_mins s = Inr m \<and> ts_secs s = Inr c \<and> ts_ms s = Inr ms
           \<and> 0 \<le> h \<and> h < 10 ^ int_max_str_digits \<and> 0 \<le> m \<and> m < 60 \<and> 0 \<le> c \<and> c < 60 \<and> 0 \<le> ms
           \<and> ms < 1000"
proof (cases s)
  case (PyInt n)
  with assms have "0 \<le> n" and "n div 3600 < 10 ^ int_max_str_digits" by (simp_all add: in_range_def)
  then have "0 \<le> n div 3600" by (simp add: pos_imp_zdiv_nonneg_iff)
  moreover have "0 \<le> n mod 3600 div 60" by (simp add: pos_imp_zdiv_nonneg_iff)
  moreover have "n mod 3600 div 60 < 60"
  proof -
    have "n mod 3600 < 3600" by simp
    then show ?thesis by arith
  qed
  ultimately show ?thesis unfolding PyInt ts_int using \<open>n div 3600 < 10 ^ int_max_str_digits\<close> by simp
next
  case (PyFloat x)
  with assms obtain q where x: "x = Fin q" and q: "0 \<le> q" "q * 1000 < overflow_threshold"
    by (cases x) (simp_all add: in_range_def)
  from ts_hrs_float [OF q(1) product_in_range [OF q]] obtain h where
    h: "ts_hrs (PyFloat (Fin q)) = Inr h" "0 \<le> h" "h < 10 ^ int_max_str_digits" by blast
  from ts_ms_float [OF q] obtain p :: rat where
    p: "ts_ms (PyFloat (Fin q)) = Inr \<lfloor>p - 1000 * of_int \<lfloor>p / 1000\<rfloor>\<rfloor>" by blast
  define r where "r = q - 3600 * of_int \<lfloor>q / 3600\<rfloor>"
  have r: "0 \<le> r" "r < 3600" using frem_bounds [of 3600 q] by (simp_all add: r_def)
  have m0: "0 \<le> \<lfloor>r / 60\<rfloor>" using r(1) by simp
  have "r / 60 < 60" using r(2) by simp
  then have m1: "\<lfloor>r / 60\<rfloor> < 60" by (simp add: floor_less_iff)
  have c: "0 \<le> \<lfloor>q - 60 * of_int \<lfloor>q / 60\<rfloor>\<rfloor>" "\<lfloor>q - 60 * of_int \<lfloor>q / 60\<rfloor>\<rfloor> < 60"
    using floor_frem_range [of 60 q] by simp_all
  have ms: "0 \<le> \<lfloor>p - 1000 * of_int \<lfloor>p / 1000\<rfloor>\<rfloor>" "\<lfloor>p - 1000 * of_int \<lfloor>p / 1000\<rfloor>\<rfloor> < 1000"
    using floor_frem_range [of 1000 p] by simp_all
  show ?thesis
    unfolding PyFloat x using h p ts_mins_float [OF q(1)] ts_secs_float [OF q(1)] m0 m1 c ms
    by (simp add: r_def)
qed

lemma format_timestamp_in_range:
  assumes "in_range s"
  shows "\<exists>h m c ms. ts_hrs s = Inr h \<and> ts_mins s = Inr m \<and> ts_secs s = Inr c \<and> ts_ms s = Inr ms
           \<and> 0 \<le> h \<and> 0 \<le> m \<and> m < 60 \<and> 0 \<le> c \<and> c < 60 \<and> 0 \<le> ms \<and> ms < 1000
           \<and> format_timestamp s
               = Inr (hours_field h @ '':'' @ two_digits m @ '':'' @ two_digits c @ ''.''
                        @ three_digits ms)"
proof -
  from ts_components [OF assms] obtain h m c ms where
    t: "ts_hrs s = Inr h" "ts_mins s = Inr m" "ts_secs s = Inr c" "ts_ms s = Inr ms"
    and b: "0 \<le> h" "0 \<le> m" "m < 60" "0 \<le> c" "c < 60" "0 \<le> ms" "ms < 1000"
    and hl: "h < 10 ^ int_max_str_digits" by blast
  have fh: "py_format_d 2 h = Inr (hours_field h)"
    using py_format_d_in_limit [OF b(1) hl] zero_padded_hours [OF b(1)] by simp
  have fm: "py_format_d 2 m = Inr (two_digits m)"
    using py_format_d_in_limit [OF b(2) small_in_limit, of 2] zero_padded_two [OF b(2), of] b(3)
    by simp
  have fc: "py_format_d 2 c = Inr (two_digits c)"
    using py_format_d_in_limit [OF b(4) small_in_limit, of 2] zero_padded_two [OF b(4)] b(5)
    by simp
  have fs: "py_format_d 3 ms = Inr (three_digits ms)"
    using py_format_d_in_limit [OF b(6) small_in_limit, of 3] zero_padded_three [OF b(6,7)] b(7)
    by simp
  have "format_timestamp s
          = Inr (hours_field h @ '':'' @ two_digits m @ '':'' @ two_digits c @ ''.''
                   @ three_digits ms)"
    by (simp add: format_timestamp_def bindE_def t fh fm fc fs)
  with t b show ?thesis by blast
qed

lemma format_timestamp_int_over_limit:
  assumes "10 ^ int_max_str_digits \<le> n div 3600"
  shows "format_timestamp (PyInt n) = Inl ValueError"
  by (simp add: format_timestamp_def bindE_def ts_int py_format_d_over_limit [OF assms])

lemma ts_ms_overflow:
  assumes "overflow_threshold \<le> q * 1000" and "0 < q"
  shows "ts_ms (PyFloat (Fin q)) = Inl ValueError"
proof -
  have i: "int_to_float 1000 = Inr 1000" using int_to_float_small [of 1000] by simp
  have "0 < q * 1000" using assms(2) by simp
  then have p: "fl_rnd (q * 1000) = PInf" using assms(1) by (simp add: fl_rnd_def)
  have m: "float_rem PInf 1000 = Inr NaN"
    by (simp add: float_rem_def c_fmod_def fl_nonzero_def fl_less_def)
  show ?thesis
    by (simp add: ts_ms_def py_mul_def py_mod_def bindE_def i fl_mul_def p m py_int_def)
qed

lemma big_bounds:
  "4 * rat_of_int (2 ^ 1021) + 4 < overflow_threshold"
  "overflow_threshold \<le> rat_of_int (2 ^ 1021) * 1000"
  by (simp_all add: overflow_threshold_def)


lemma format_timestamp_2_1021:
  "format_timestamp (PyFloat (Fin (of_int (2 ^ 1021)))) = Inl ValueError"
proof -
  define q :: rat where "q = of_int (2 ^ 1021)"
  have q0: "0 \<le> q" and qpos: "0 < q" by (simp_all add: q_def)
  from ts_hrs_float [OF q0] big_bounds(1) obtain h where h: "ts_hrs (PyFloat (Fin q)) = Inr h"
    unfolding q_def by blast
  have ms: "ts_ms (PyFloat (Fin q)) = Inl ValueError"
    using ts_ms_overflow [OF _ qpos] big_bounds(2) unfolding q_def by blast
  have "format_timestamp (PyFloat (Fin q)) = Inl ValueError"
    by (simp add: format_timestamp_def bindE_def h ts_mins_float [OF q0] ts_secs_float [OF q0] ms)
  then show ?thesis by (simp only: q_def)
qed

lemma double_2_1021: "fl_rnd (of_int (2 ^ 1021)) = Fin (of_int (2 ^ 1021))"
  by (simp add: fl_rnd_def overflow_threshold_def floor_log2_def compute_bitlen
      round_even_def pow2_def Let_def)

section \<open>The loops of translation and emission\<close>

lemma translate_loop_append:
  "translate_loop tr lang (pre @ rest) acc w =
     (case translate_loop tr lang pre acc w of
        (Inl e, w1) \<Rightarrow> (Inl e, w1)
      | (Inr acc1, w1) \<Rightarrow> translate_loop tr lang rest acc1 w1)"
proof (induction pre arbitrary: acc w)
  case Nil
  show ?case by simp
next
  case (Cons seg pre)
  show ?case
  proof (cases "tr (seg_text seg) lang w")
    case (Pair r w1)
    then show ?thesis using Cons.IH by (cases r) simp_all
  qed
qed

lemma translate_loop_result:
  assumes "translate_loop tr lang segs acc w = (Inr ts, w')"
  shows "\<exists>new. ts = acc @ new \<and> length new = length segs
           \<and> map d_start new = map seg_start segs \<and> map d_end new = map seg_end segs
           \<and> (\<forall>i<length segs. \<exists>w0 w1. tr (seg_text (segs ! i)) lang w0 = (Inr (d_text (new ! i)), w1))"
  using assms
proof (induction segs arbitrary: acc w)
  case Nil
  then show ?case by simp
next
  case (Cons seg segs)
  obtain r w1 where step: "tr (seg_text seg) lang w = (r, w1)" by (cases "tr (seg_text seg) lang w")
  show ?case
  proof (cases r)
    case (Inl e)
    with step Cons.prems show ?thesis by simp
  next
    case (Inr tx)
    define t where "t = \<lparr>d_start = seg_start seg, d_end = seg_end seg, d_text = tx\<rparr>"
    from step Inr Cons.prems have "translate_loop tr lang segs (acc @ [t]) w1 = (Inr ts, w')"
      by (simp add: t_def)
    from Cons.IH [OF this] obtain new where
      new: "ts = (acc @ [t]) @ new" "length new = length segs"
        "map d_start new = map seg_start segs" "map d_end new = map seg_end segs"
        "\<forall>i<length segs. \<exists>w0 w1. tr (seg_text (segs ! i)) lang w0 = (Inr (d_text (new ! i)), w1)"
      by blast
    have call: "tr (seg_text seg) lang w = (Inr (d_text t), w1)" using step Inr by (simp add: t_def)
    have "\<forall>i<length (seg # segs).
            \<exists>w0 w1. tr (seg_text ((seg # segs) ! i)) lang w0 = (Inr (d_text ((t # new) ! i)), w1)"
    proof (intro allI impI)
      fix i assume i: "i < length (seg # segs)"
      show "\<exists>w0 w1. tr (seg_text ((seg # segs) ! i)) lang w0 = (Inr (d_text ((t # new) ! i)), w1)"
      proof (cases i)
        case 0
        then show ?thesis using call by auto
      next
        case (Suc j)
        then have "j < length segs" using i by simp
        with new(5) Suc show ?thesis by simp
      qed
    qed
    moreover have "ts = acc @ (t # new)" using new(1) by simp
    moreover have "length (t # new) = length (seg # segs)" using new(2) by simp
    moreover have "map d_start (t # new) = map seg_start (seg # segs)"
      using new(3) by (simp add: t_def)
    moreover have "map d_end (t # new) = map seg_end (seg # segs)"
      using new(4) by (simp add: t_def)
    ultimately show ?thesis by blast
  qed
qed

lemma translate_segments_result:
  assumes "translate_segments tr segs lang w = (Inr ts, w')"
  shows "length ts = length segs"
    and "map d_start ts = map seg_start segs"
    and "map d_end ts = map seg_end segs"
    and "\<forall>i<length segs. \<exists>w0 w1. tr (seg_text (segs ! i)) lang w0 = (Inr (d_text (ts ! i)), w1)"
  using translate_loop_result [OF assms [unfolded translate_segments_def]] by auto

lemma translate_segments_failure:
  assumes "translate_segments tr pre lang w = (Inr ts, w1)"
    and "tr (seg_text seg) lang w1 = (Inl e, w2)"
  shows "translate_segments tr (pre @ seg # post) lang w = (Inl e, w2)"
  using assms by (simp add: translate_segments_def translate_loop_append)

lemma write_cues_blocks:
  assumes "map cue_block segs = map Inr blocks"
  shows "write_cues segs buf = (Inr (), buf @ concat blocks)"
  using assms
proof (induction segs arbitrary: buf blocks)
  case Nil
  then show ?case by simp
next
  case (Cons seg segs)
  from Cons.prems obtain b bs where blocks: "blocks = b # bs"
    and b: "cue_block seg = Inr b" and bs: "map cue_block segs = map Inr bs"
    by (cases blocks) auto
  from b obtain st en where st: "format_timestamp (d_start seg) = Inr st"
    and en: "format_timestamp (d_end seg) = Inr en"
    and beq: "b = st @ '' --> '' @ en @ ''\<newline>'' @ d_text seg @ ''\<newline>\<newline>''"
    by (auto simp add: cue_block_def bindE_def split: sum.splits)
  show ?case using Cons.IH [OF bs] by (simp add: st en blocks beq)
qed


lemma create_vtt_blocks:
  assumes "file_path \<notin> set (unwritable fs)" and "map cue_block segs = map Inr blocks"
  shows "create_vtt segs file_path fs
           = (Inr (), fs\<lparr>files := (files fs)(file_path \<mapsto> ''WEBVTT\<newline>\<newline>'' @ concat blocks)\<rparr>)"
  using assms(1) by (simp add: create_vtt_def open_w_def write_cues_blocks [OF assms(2)])






section \<open>Reading the file back\<close>






section \<open>Timestamps of the scenarios\<close>

lemma format_timestamp_int_0: "format_timestamp (PyInt 0) = Inr ''00:00:00.000''"
  by code_simp

lemma format_timestamp_3661_5: "format_timestamp (float_literal (7323 / 2)) = Inr ''01:01:01.500''"
  by code_simp

lemma format_timestamp_0_0: "format_timestamp (float_literal 0) = Inr ''00:00:00.000''"
  by code_simp

lemma format_timestamp_1_2: "format_timestamp (float_literal (6 / 5)) = Inr ''00:00:01.200''"
  by code_simp

lemma format_timestamp_3_0: "format_timestamp (float_literal 3) = Inr ''00:00:03.000''"
  by code_simp

lemma cue_blocks_bonjour_monde:
  "map cue_block bonjour_monde
     = map Inr [''00:00:00.000 --> 00:00:01.200\<newline>Bonjour\<newline>\<newline>'',
                ''00:00:01.200 --> 00:00:03.000\<newline>Monde\<newline>\<newline>'']"
  by (simp add: bonjour_monde_def cue_block_def bindE_def format_timestamp_0_0
      format_timestamp_1_2 format_timestamp_3_0)








lemma translate_hello_world:
  assumes "tr ''Hello'' ''fr'' w = (Inr ''Bonjour'', w1)"
    and "tr ''World'' ''fr'' w1 = (Inr ''Monde'', w2)"
  shows "translate_segments tr hello_world ''fr'' w = (Inr bonjour_monde, w2)"
  using assms by (simp add: translate_segments_def hello_world_def bonjour_monde_def)

lemma phrasebook_hello_world:
  "phrasebook ''Hello'' ''fr'' 0 = (Inr ''Bonjour'', 1)"
  "phrasebook ''World'' ''fr'' 1 = (Inr ''Monde'', 2)"
  by (simp_all add: phrasebook_def)

section \<open>The claims\<close>

text \<open>
  C1 (as stated, refuted). The claim lets every non-negative seconds value return a string. The
  float \<open>2.0 ** 1021\<close> is non-negative and representable, yet its product with \<open>1000\<close>
  overflows to infinity, the remainder of infinity is a NaN, and \<open>int\<close> of a NaN raises
  \<open>ValueError\<close>.
\<close>

theorem format_timestamp_overflow_counterexample:
  "0 \<le> rat_of_int (2 ^ 1021)
   \<and> fl_rnd (of_int (2 ^ 1021)) = Fin (of_int (2 ^ 1021))
   \<and> format_timestamp (PyFloat (Fin (of_int (2 ^ 1021)))) = Inl ValueError"
proof (intro conjI)
  show "0 \<le> rat_of_int (2 ^ 1021)" by simp
  show "fl_rnd (of_int (2 ^ 1021)) = Fin (of_int (2 ^ 1021))" by (rule double_2_1021)
  show "format_timestamp (PyFloat (Fin (of_int (2 ^ 1021)))) = Inl ValueError"
    by (rule format_timestamp_2_1021)
qed

text \<open>
  C1 (amended). For every non-negative \<open>int\<close> whose hours \<open>s // 3600\<close> have at most 4300 digits
  (the limit of CPython on the conversion of an \<open>int\<close> to a string), and every non-negative
  finite \<open>float\<close> whose product with \<open>1000\<close> stays below the overflow threshold,
  \<open>format_timestamp\<close> returns: the four components \<open>int(s // 3600)\<close>, \<open>int((s % 3600) // 60)\<close>,
  \<open>int(s % 60)\<close> and \<open>int((s * 1000) % 1000)\<close> are defined, hours are non-negative, minutes and
  seconds lie in \<open>0..59\<close>, milliseconds in \<open>0..999\<close>, and the result is \<open>HH:MM:SS.mmm\<close> with
  \<open>HH\<close> of two or more digits, \<open>MM\<close> and \<open>SS\<close> of exactly two and \<open>mmm\<close> of exactly three. In
  particular \<open>format_timestamp(0)\<close> is \<open>00:00:00.000\<close> and \<open>format_timestamp(3661.5)\<close> is
  \<open>01:01:01.500\<close>.
\<close>

theorem format_timestamp_decomposition:
  "(in_range s \<longrightarrow>
      (\<exists>h m c ms. ts_hrs s = Inr h \<and> ts_mins s = Inr m \<and> ts_secs s = Inr c \<and> ts_ms s = Inr ms
         \<and> 0 \<le> h \<and> 0 \<le> m \<and> m < 60 \<and> 0 \<le> c \<and> c < 60 \<and> 0 \<le> ms \<and> ms < 1000
         \<and> format_timestamp s
             = Inr (hours_field h @ '':'' @ two_digits m @ '':'' @ two_digits c @ ''.''
                      @ three_digits ms)))
   \<and> format_timestamp (PyInt 0) = Inr ''00:00:00.000''
   \<and> format_timestamp (float_literal (7323 / 2)) = Inr ''01:01:01.500''"
  using format_timestamp_in_range [of s] format_timestamp_int_0 format_timestamp_3661_5
  by blast

theorem format_timestamp_decomposition_witness:
  "in_range (PyFloat (Fin (7323 / 2)))
   \<and> (\<exists>h m c ms. ts_hrs (PyFloat (Fin (7323 / 2))) = Inr h
         \<and> ts_mins (PyFloat (Fin (7323 / 2))) = Inr m
         \<and> ts_secs (PyFloat (Fin (7323 / 2))) = Inr c
         \<and> ts_ms (PyFloat (Fin (7323 / 2))) = Inr ms
         \<and> 0 \<le> h \<and> 0 \<le> m \<and> m < 60 \<and> 0 \<le> c \<and> c < 60 \<and> 0 \<le> ms \<and> ms < 1000
         \<and> format_timestamp (PyFloat (Fin (7323 / 2)))
             = Inr (hours_field h @ '':'' @ two_digits m @ '':'' @ two_digits c @ ''.''
                      @ three_digits ms))"
proof -
  have r: "in_range (PyFloat (Fin (7323 / 2)))"
    by (simp add: in_range_def overflow_threshold_def)
  with format_timestamp_decomposition [of "PyFloat (Fin (7323 / 2))"] show ?thesis by blast
qed

text \<open>
  C2. The milliseconds are truncated, not rounded: \<open>format_timestamp(59.9999)\<close> is
  \<open>00:00:59.999\<close> and \<open>format_timestamp(1.9995)\<close> is \<open>00:00:01.999\<close> (the literals are
  \<open>599999/10000\<close> and \<open>3999/2000\<close>).
\<close>

theorem format_timestamp_truncates:
  "format_timestamp (float_literal (599999 / 10000)) = Inr ''00:00:59.999''
   \<and> format_timestamp (float_literal (3999 / 2000)) = Inr ''00:00:01.999''"
  by code_simp



text \<open>
  C4. Translation never changes timing: when \<open>translate_segments\<close> returns, the start and end
  of each element of its result are those of the corresponding input segment, and its text is
  what the translator returned for the text of that segment.
\<close>

theorem translation_preserves_timing:
  assumes "translate_segments tr segs target_lang w = (Inr ts, w')"
  shows "map d_start ts = map seg_start segs
    \<and> map d_end ts = map seg_end segs
    \<and> (\<forall>i<length segs. \<exists>w0 w1. tr (seg_text (segs ! i)) target_lang w0 = (Inr (d_text (ts ! i)), w1))"
  using translate_segments_result(2,3,4) [OF assms] by blast

theorem translation_preserves_timing_witness:
  "translate_segments phrasebook hello_world ''fr'' 0 = (Inr bonjour_monde, 2)
   \<and> map d_start bonjour_monde = map seg_start hello_world
   \<and> map d_end bonjour_monde = map seg_end hello_world
   \<and> (\<exists>w0 w1. phrasebook (seg_text (hello_world ! 0)) ''fr'' w0
          = (Inr (d_text (bonjour_monde ! 0)), w1))
   \<and> (\<exists>w0 w1. phrasebook (seg_text (hello_world ! 1)) ''fr'' w0
          = (Inr (d_text (bonjour_monde ! 1)), w1))"
proof -
  have t: "translate_segments phrasebook hello_world ''fr'' 0 = (Inr bonjour_monde, 2)"
    using translate_hello_world [where tr = phrasebook, OF phrasebook_hello_world] .
  have l: "0 < length hello_world" "1 < length hello_world" by (simp_all add: hello_world_def)
  from translation_preserves_timing [OF t] t l show ?thesis by blast
qed




text \<open>
  C6. The end-to-end scenario: the segments \<open>{0.0, 1.2, "Hello"}\<close> and \<open>{1.2, 3.0, "World"}\<close>,
  with a translator that answers \<open>Bonjour\<close> and \<open>Monde\<close> for French, give exactly the file
  \<open>WEBVTT\n\n00:00:00.000 --> 00:00:01.200\nBonjour\n\n00:00:01.200 --> 00:00:03.000\nMonde\n\n\<close>.
\<close>

theorem end_to_end_scenario:
  assumes "tr ''Hello'' ''fr'' w = (Inr ''Bonjour'', w1)"
    and "tr ''World'' ''fr'' w1 = (Inr ''Monde'', w2)"
    and "file_path \<notin> set (unwritable fs)"
  shows "\<exists>ts. translate_segments tr hello_world ''fr'' w = (Inr ts, w2)
    \<and> fst (create_vtt ts file_path fs) = Inr ()
    \<and> files (snd (create_vtt ts file_path fs)) file_path
        = Some ''WEBVTT\<newline>\<newline>00:00:00.000 --> 00:00:01.200\<newline>Bonjour\<newline>\<newline>00:00:01.200 --> 00:00:03.000\<newline>Monde\<newline>\<newline>''"
proof -
  have "translate_segments tr hello_world ''fr'' w = (Inr bonjour_monde, w2)"
    by (rule translate_hello_world [where tr = tr, OF assms(1,2)])
  moreover have "fst (create_vtt bonjour_monde file_path fs) = Inr ()"
    by (simp add: create_vtt_blocks [OF assms(3) cue_blocks_bonjour_monde])
  moreover have "files (snd (create_vtt bonjour_monde file_path fs)) file_path
        = Some ''WEBVTT\<newline>\<newline>00:00:00.000 --> 00:00:01.200\<newline>Bonjour\<newline>\<newline>00:00:01.200 --> 00:00:03.000\<newline>Monde\<newline>\<newline>''"
    by (simp add: create_vtt_blocks [OF assms(3) cue_blocks_bonjour_monde])
  ultimately show ?thesis by blast
qed

theorem end_to_end_scenario_witness:
  "phrasebook ''Hello'' ''fr'' 0 = (Inr ''Bonjour'', 1)
   \<and> phrasebook ''World'' ''fr'' 1 = (Inr ''Monde'', 2)
   \<and> ''s.vtt'' \<notin> set (unwritable empty_fs)
   \<and> (\<exists>ts. translate_segments phrasebook hello_world ''fr'' 0 = (Inr ts, 2)
         \<and> fst (create_vtt ts ''s.vtt'' empty_fs) = Inr ()
         \<and> files (snd (create_vtt ts ''s.vtt'' empty_fs)) ''s.vtt''
             = Some ''WEBVTT\<newline>\<newline>00:00:00.000 --> 00:00:01.200\<newline>Bonjour\<newline>\<newline>00:00:01.200 --> 00:00:03.000\<newline>Monde\<newline>\<newline>'')"
proof -
  have w: "''s.vtt'' \<notin> set (unwritable empty_fs)" by (simp add: empty_fs_def)
  from end_to_end_scenario [where tr = phrasebook, OF phrasebook_hello_world w]
    phrasebook_hello_world w
  show ?thesis by blast
qed

text \<open>
  C7 (as stated, refuted). On a host where the transcoder is unavailable (no \<open>ffmpeg\<close>
  executable), \<open>extract_audio\<close> does not return normally: \<open>subprocess.run\<close> raises
  \<open>FileNotFoundError\<close>, and nothing in \<open>extract_audio\<close> catches it.
\<close>

theorem extract_audio_unavailable_counterexample:
  "extract_audio host_without_ffmpeg ''v.mp4'' ''a.mp3'' empty_fs = (Inl FileNotFoundError, empty_fs)"
  by (simp add: extract_audio_def subprocess_run_def host_without_ffmpeg_def)

text \<open>
  C7 (amended). Whenever the transcoder executable is found, \<open>extract_audio\<close> returns normally
  whatever the exit status of the transcoder is (for instance on an input without audio stream),
  and the file system is the one the transcoder left.
\<close>

theorem extract_audio_ignores_exit_status:
  assumes "progs ''ffmpeg'' = Some run"
  shows "extract_audio progs video audio fs
           = (Inr (), snd (run [''-y'', ''-i'', video, ''-vn'', ''-acodec'', ''mp3'', audio] fs))"
  using assms by (simp add: extract_audio_def subprocess_run_def split: prod.splits)

theorem extract_audio_ignores_exit_status_witness:
  "host_with_ffmpeg ''ffmpeg'' = Some ffmpeg_no_audio
   \<and> fst (ffmpeg_no_audio [''-y'', ''-i'', ''v.mp4'', ''-vn'', ''-acodec'', ''mp3'', ''a.mp3''] empty_fs) = 1
   \<and> extract_audio host_with_ffmpeg ''v.mp4'' ''a.mp3'' empty_fs = (Inr (), empty_fs)"
proof -
  have h: "host_with_ffmpeg ''ffmpeg'' = Some ffmpeg_no_audio" by (simp add: host_with_ffmpeg_def)
  from extract_audio_ignores_exit_status
    [where progs = host_with_ffmpeg and video = "''v.mp4''" and audio = "''a.mp3''"
       and fs = empty_fs, OF h] h
  show ?thesis by (simp add: ffmpeg_no_audio_def)
qed

text \<open>
  C8. A translation failure is atomic for the job. If the translator returns for the segments
  \<open>pre\<close> and raises \<open>e\<close> for the next segment, \<open>translate_segments\<close> raises \<open>e\<close>: it returns no
  list, does not call the translator again (the world is as the failing call left it) and does
  not fall back to the source text. In the job the exception ends the run: the file system is the
  one the audio extraction left, so \<open>create_vtt\<close> has written nothing.
\<close>

theorem translation_failure_aborts_job:
  assumes "open_w (video_path tp) fs = Inr fs0"
    and "open_w (temp_audio tp) (fs0\<lparr>files := (files fs0)(video_path tp \<mapsto> uploaded)\<rparr>) = Inr fs2"
    and "open_w (temp_subs tp) fs2 = Inr fs3"
    and "extract_audio (programs sv) (video_path tp) (temp_audio tp) fs3 = (Inr (), fs4)"
    and "transcribe_audio (whisper_model sv) (temp_audio tp) source_lang fs4 = Inr (pre @ seg # post)"
    and "translate_segments (translator sv) pre target_lang w = (Inr ts, w1)"
    and "translator sv (seg_text seg) target_lang w1 = (Inl e, w2)"
  shows "translate_segments (translator sv) (pre @ seg # post) target_lang w = (Inl e, w2)
    \<and> run_job sv tp uploaded source_lang target_lang fs w = (Inl e, fs4, w2)"
proof -
  have t: "translate_segments (translator sv) (pre @ seg # post) target_lang w = (Inl e, w2)"
    by (rule translate_segments_failure [OF assms(6,7)])
  have "run_job sv tp uploaded source_lang target_lang fs w = (Inl e, fs4, w2)"
    by (simp add: run_job_def Let_def assms(1-5) t)
  with t show ?thesis by blast
qed

theorem translation_failure_aborts_job_witness:
  "translate_segments phrasebook
       [\<lparr>seg_start = PyInt 0, seg_end = PyInt 1, seg_text = ''Hello''\<rparr>] ''fr'' 0
     = (Inr [\<lparr>d_start = PyInt 0, d_end = PyInt 1, d_text = ''Bonjour''\<rparr>], 1)
   \<and> phrasebook ''Zzz'' ''fr'' 1 = (Inl (ExternalError ''no translation''), 2)
   \<and> run_job demo_services demo_paths ''video'' ''en'' ''fr'' empty_fs 0
     = (Inl (ExternalError ''no translation''),
        \<lparr>files = [''v.mp4'' \<mapsto> ''video'', ''a.mp3'' \<mapsto> [], ''s.vtt'' \<mapsto> []], unwritable = []\<rparr>,
        2)"
proof -
  define fs0 where "fs0 = \<lparr>files = [''v.mp4'' \<mapsto> []], unwritable = []\<rparr>"
  define fs2 where "fs2 = \<lparr>files = [''v.mp4'' \<mapsto> ''video'', ''a.mp3'' \<mapsto> []], unwritable = []\<rparr>"
  define fs3 where
    "fs3 = \<lparr>files = [''v.mp4'' \<mapsto> ''video'', ''a.mp3'' \<mapsto> [], ''s.vtt'' \<mapsto> []], unwritable = []\<rparr>"
  define pre where "pre = [\<lparr>seg_start = PyInt 0, seg_end = PyInt 1, seg_text = ''Hello''\<rparr>]"
  define seg where "seg = \<lparr>seg_start = PyInt 1, seg_end = PyInt 2, seg_text = ''Zzz''\<rparr>"
  define post where "post = [\<lparr>seg_start = PyInt 2, seg_end = PyInt 3, seg_text = ''World''\<rparr>]"
  have a1: "open_w (video_path demo_paths) empty_fs = Inr fs0"
    by (simp add: open_w_def demo_paths_def empty_fs_def fs0_def)
  have a2: "open_w (temp_audio demo_paths)
              (fs0\<lparr>files := (files fs0)(video_path demo_paths \<mapsto> ''video'')\<rparr>) = Inr fs2"
    by (simp add: open_w_def demo_paths_def fs0_def fs2_def)
  have a3: "open_w (temp_subs demo_paths) fs2 = Inr fs3"
    by (simp add: open_w_def demo_paths_def fs2_def fs3_def)
  have a4: "extract_audio (programs demo_services) (video_path demo_paths) (temp_audio demo_paths) fs3
              = (Inr (), fs3)"
    by (simp add: extract_audio_def subprocess_run_def demo_services_def host_with_ffmpeg_def
        ffmpeg_no_audio_def)
  have a5: "transcribe_audio (whisper_model demo_services) (temp_audio demo_paths) ''en'' fs3
              = Inr (pre @ seg # post)"
    by (simp add: transcribe_audio_def demo_services_def demo_whisper_def pre_def seg_def post_def)
  have a6: "translate_segments (translator demo_services) pre ''fr'' 0
              = (Inr [\<lparr>d_start = PyInt 0, d_end = PyInt 1, d_text = ''Bonjour''\<rparr>], 1)"
    by (simp add: translate_segments_def demo_services_def phrasebook_def pre_def)
  have a7: "translator demo_services (seg_text seg) ''fr'' 1
              = (Inl (ExternalError ''no translation''), 2)"
    by (simp add: demo_services_def phrasebook_def seg_def)
  from translation_failure_aborts_job [OF a1 a2 a3 a4 a5 a6 a7] a6 a7
  show ?thesis by (simp add: demo_services_def pre_def seg_def fs3_def)
qed

text \<open>
  C9. For the empty sequence and a path that can be opened for writing, \<open>create_vtt\<close> returns
  and the whole file is \<open>WEBVTT\n\n\<close>: the header line and one blank line, no cue block.
\<close>

theorem create_vtt_empty:
  assumes "file_path \<notin> set (unwritable fs)"
  shows "create_vtt [] file_path fs
           = (Inr (), fs\<lparr>files := (files fs)(file_path \<mapsto> ''WEBVTT\<newline>\<newline>'')\<rparr>)"
  using assms by (simp add: create_vtt_def open_w_def)

theorem create_vtt_empty_witness:
  "''s.vtt'' \<notin> set (unwritable empty_fs)
   \<and> create_vtt [] ''s.vtt'' empty_fs
       = (Inr (), \<lparr>files = [''s.vtt'' \<mapsto> ''WEBVTT\<newline>\<newline>''], unwritable = []\<rparr>)"
proof -
  have w: "''s.vtt'' \<notin> set (unwritable empty_fs)" by (simp add: empty_fs_def)
  from create_vtt_empty [OF w] w show ?thesis by (simp add: empty_fs_def)
qed




end
